theory Spec2Isabelle
  imports Complex_Main "HOL-Library.AList"
begin

section \<open>Text primitives used by the document processor and the answer synthesizer\<close>

text \<open>
  Python strings are sequences of code points; the model uses \<^typ>\<open>string\<close> and reads each
  \<^typ>\<open>char\<close> as a code point below 256. \<open>isspace\<close> is the whitespace class shared by
  the regular expression \<^verbatim>\<open>\s\<close>, \<^verbatim>\<open>str.strip()\<close> and \<^verbatim>\<open>str.split()\<close> on that range.
\<close>

definition isspace :: "char \<Rightarrow> bool" where
  "isspace c \<longleftrightarrow> c \<in> set [CHR 0x09, CHR 0x0A, CHR 0x0B, CHR 0x0C, CHR 0x0D,
                          CHR 0x1C, CHR 0x1D, CHR 0x1E, CHR 0x1F, CHR 0x20, CHR 0x85, CHR 0xA0]"

text \<open>\<^verbatim>\<open>re.sub(r'\s+', ' ', text)\<close>: every maximal whitespace run becomes one space.\<close>

function sub_ws :: "string \<Rightarrow> string" where
  "sub_ws [] = []"
| "sub_ws (c # cs) =
     (if isspace c then CHR 0x20 # sub_ws (dropWhile isspace cs) else c # sub_ws cs)"
  by pat_completeness auto
termination
  by (relation "measure length") (auto simp: length_dropWhile_le less_Suc_eq_le)

text \<open>\<^verbatim>\<open>str.strip()\<close>: whitespace removed at both ends.\<close>

definition strip :: "string \<Rightarrow> string" where
  "strip s = rev (dropWhile isspace (rev (dropWhile isspace s)))"

text \<open>\<^verbatim>\<open>sep.join(parts)\<close>.\<close>

fun join :: "string \<Rightarrow> string list \<Rightarrow> string" where
  "join sep [] = []"
| "join sep [x] = x"
| "join sep (x # y # ys) = x @ sep @ join sep (y # ys)"

text \<open>
  \<^verbatim>\<open>re.split(r'(?<=[.!?])\s+', text)\<close>: the text is cut at every whitespace run whose
  first character directly follows one of \<^verbatim>\<open>. ! ?\<close>; the run itself is discarded. The flag
  says whether the character just read is such a terminator, the second argument is the
  piece collected so far.
\<close>

definition is_terminator :: "char \<Rightarrow> bool" where
  "is_terminator c \<longleftrightarrow> c = CHR ''.'' \<or> c = CHR ''!'' \<or> c = CHR ''?''"

function re_split :: "bool \<Rightarrow> string \<Rightarrow> string \<Rightarrow> string list" where
  "re_split t cur [] = [cur]"
| "re_split t cur (c # cs) =
     (if t \<and> isspace c then cur # re_split False [] (dropWhile isspace cs)
      else re_split (is_terminator c) (cur @ [c]) cs)"
  by pat_completeness auto
termination
  by (relation "measure (\<lambda>(t, cur, cs). length cs)")
     (auto simp: length_dropWhile_le less_Suc_eq_le)

definition split_sentences :: "string \<Rightarrow> string list" where
  "split_sentences text = re_split False [] text"

text \<open>\<^verbatim>\<open>str.lower()\<close> on code points below 256: the ASCII and the Latin-1 capitals move by 32.\<close>

definition lower_char :: "char \<Rightarrow> char" where
  "lower_char c =
     (let n = (of_char c :: nat) in
      if (65 \<le> n \<and> n \<le> 90) \<or> (192 \<le> n \<and> n \<le> 222 \<and> n \<noteq> 215) then char_of (n + 32) else c)"

definition str_lower :: "string \<Rightarrow> string" where
  "str_lower s = map lower_char s"

text \<open>\<^verbatim>\<open>s.split(d)\<close> for a one-character separator: the pieces between the separators, at least one.\<close>

fun split_on :: "char \<Rightarrow> string \<Rightarrow> string \<Rightarrow> string list" where
  "split_on d cur [] = [cur]"
| "split_on d cur (c # cs) = (if c = d then cur # split_on d [] cs else split_on d (cur @ [c]) cs)"

definition str_split :: "char \<Rightarrow> string \<Rightarrow> string list" where
  "str_split d s = split_on d [] s"

text \<open>\<^verbatim>\<open>s.split()\<close>: the maximal runs of non-whitespace characters.\<close>

function str_words :: "string \<Rightarrow> string list" where
  "str_words [] = []"
| "str_words (c # cs) =
     (if isspace c then str_words cs
      else (c # takeWhile (\<lambda>x. \<not> isspace x) cs) # str_words (dropWhile (\<lambda>x. \<not> isspace x) cs))"
  by pat_completeness auto
termination
  by (relation "measure length") (auto simp: length_dropWhile_le less_Suc_eq_le)

text \<open>\<^verbatim>\<open>s.endswith('.')\<close>.\<close>

definition ends_with_period :: "string \<Rightarrow> bool" where
  "ends_with_period s \<longleftrightarrow> s \<noteq> [] \<and> last s = CHR ''.''"

text \<open>\<^verbatim>\<open>str(n)\<close> for a non-negative integer: its decimal digits.\<close>

definition digit_char :: "nat \<Rightarrow> char" where
  "digit_char d = char_of (48 + d)"

function str_nat :: "nat \<Rightarrow> string" where
  "str_nat n = (if n < 10 then [digit_char n] else str_nat (n div 10) @ [digit_char (n mod 10)])"
  by pat_completeness auto
termination
  by (relation "measure (\<lambda>n. n)") auto

declare str_nat.simps [simp del]

section \<open>DocumentProcessor.chunk_text\<close>

record processor =
  chunk_size :: int
  chunk_overlap :: int

text \<open>\<^verbatim>\<open>DocumentProcessor()\<close> as the engine constructs it: the default sizes.\<close>

definition default_processor :: processor where
  "default_processor = \<lparr>chunk_size = 500, chunk_overlap = 50\<rparr>"

definition clean_text :: "string \<Rightarrow> string" where
  "clean_text text = strip (sub_ws text)"

text \<open>
  The inner loop
  \<^verbatim>\<open>while len(overlap_text) > self.chunk_overlap and current_chunk: current_chunk.pop(0)\<close>
  with \<open>overlap_text\<close> recomputed as the joined buffer after every pop. It is written as the
  loop stands, without assuming that it ends: \<open>None\<close> is the loop that never returns.
\<close>

partial_function (option) keep_overlap :: "int \<Rightarrow> string list \<Rightarrow> string list option" where
  "keep_overlap overlap current_chunk =
     (if int (length (join '' '' current_chunk)) > overlap \<and> current_chunk \<noteq> []
      then keep_overlap overlap (tl current_chunk)
      else Some current_chunk)"

declare keep_overlap.simps [code]

text \<open>
  The \<^verbatim>\<open>for sentence in sentences\<close> loop, with the buffer \<open>current_chunk\<close>, the running
  \<open>current_length\<close> and the chunks emitted so far, followed by the final flush.
\<close>

fun chunk_loop ::
  "processor \<Rightarrow> string list \<Rightarrow> string list \<Rightarrow> int \<Rightarrow> string list \<Rightarrow> string list option" where
  "chunk_loop p [] current_chunk current_length chunks =
     Some (if current_chunk \<noteq> [] then chunks @ [join '' '' current_chunk] else chunks)"
| "chunk_loop p (sentence # rest) current_chunk current_length chunks =
     (let sentence_length = int (length sentence) in
      if current_length + sentence_length > chunk_size p \<and> current_chunk \<noteq> [] then
        (case keep_overlap (chunk_overlap p) current_chunk of
           None \<Rightarrow> None
         | Some kept \<Rightarrow>
             chunk_loop p rest (kept @ [sentence])
               (int (length (join '' '' kept)) + sentence_length + 1)
               (chunks @ [join '' '' current_chunk]))
      else
        chunk_loop p rest (current_chunk @ [sentence])
          (current_length + sentence_length + 1) chunks)"

definition chunk_text :: "processor \<Rightarrow> string \<Rightarrow> string list option" where
  "chunk_text p raw =
     (let text = clean_text raw in
      if int (length text) \<le> chunk_size p then Some (if text \<noteq> [] then [text] else [])
      else chunk_loop p (split_sentences text) [] 0 [])"

section \<open>Data model (models.py)\<close>

datatype DocumentType = PDF | DOCX | TXT | HTML

text \<open>The \<^verbatim>\<open>.value\<close> of the enumeration.\<close>

fun doc_type_value :: "DocumentType \<Rightarrow> string" where
  "doc_type_value PDF = ''pdf''"
| "doc_type_value DOCX = ''docx''"
| "doc_type_value TXT = ''txt''"
| "doc_type_value HTML = ''html''"

text \<open>
  \<^verbatim>\<open>Document\<close>, without the empty \<open>metadata\<close> dictionary and the creation time, which no
  operation reads.
\<close>

record Document =
  d_id :: string
  d_filename :: string
  d_doc_type :: DocumentType
  d_content :: string
  d_chunks :: "string list"

text \<open>A metadata dictionary: string keys, string or integer values.\<close>

datatype md_value = MStr string | MInt int

type_synonym metadata = "(string \<times> md_value) list"

record SearchResult =
  sr_document_id :: string
  sr_filename :: string
  sr_chunk :: string
  sr_score :: real
  sr_metadata :: metadata

record QueryRequest =
  q_query :: string
  q_top_k :: int
  q_min_score :: real

text \<open>\<^verbatim>\<open>QueryResponse\<close>, without the measured wall-clock time.\<close>

record QueryResponse =
  qr_query :: string
  qr_results :: "SearchResult list"
  qr_answer :: string

record DocumentUploadResponse =
  resp_id :: string
  resp_filename :: string
  chunks_created :: int
  message :: string

section \<open>Errors and external collaborators\<close>

text \<open>
  \<open>UnsupportedFileType ext\<close> is the \<^verbatim>\<open>ValueError("Unsupported file type: ...")\<close> of
  \<open>extract_text\<close>; \<open>LibraryError\<close> is an exception raised inside an external library
  (PDF, DOCX or HTML parsing, the vector database); \<open>ValidationError\<close> is the rejection of a
  non-string value by the \<open>SearchResult\<close> model; \<open>NoReturn\<close> stands for a chunker loop
  that never returns.
\<close>

datatype error = UnsupportedFileType string | LibraryError | ValidationError | NoReturn

text \<open>One stored entry of the vector collection and one hit of a nearest-neighbour query.\<close>

record entry =
  e_id :: string
  e_embedding :: "real list"
  e_document :: string
  e_metadata :: metadata

record hit =
  hit_id :: string
  hit_document :: string
  hit_metadata :: metadata
  hit_distance :: real

text \<open>
  The libraries the code calls and whose sources are not part of the repository, taken as
  parameters: the three format parsers (\<open>None\<close> when the library raises), the UTF-8 decoder
  with \<^verbatim>\<open>errors='ignore'\<close>, the embedding model, and the nearest-neighbour query of the
  collection (\<^verbatim>\<open>collection.query\<close> for one query embedding, given the stored entries, the
  embedding and \<open>n_results\<close>; the four parallel result columns are read row by row).
\<close>

record externals =
  x_pdf :: "string \<Rightarrow> string option"
  x_docx :: "string \<Rightarrow> string option"
  x_html :: "string \<Rightarrow> string option"
  x_decode :: "string \<Rightarrow> string"
  x_embed :: "string \<Rightarrow> real list"
  x_query :: "entry list \<Rightarrow> real list \<Rightarrow> int \<Rightarrow> hit list"

section \<open>DocumentProcessor.extract_text\<close>

definition file_ext :: "string \<Rightarrow> string" where
  "file_ext filename = last (str_split CHR ''.'' (str_lower filename))"

definition extract_text :: "externals \<Rightarrow> string \<Rightarrow> string \<Rightarrow> error + (string \<times> DocumentType)" where
  "extract_text X content filename =
     (let ext = file_ext filename in
      if ext = ''pdf'' then
        (case x_pdf X content of None \<Rightarrow> Inl LibraryError | Some text \<Rightarrow> Inr (text, PDF))
      else if ext = ''docx'' then
        (case x_docx X content of None \<Rightarrow> Inl LibraryError | Some text \<Rightarrow> Inr (text, DOCX))
      else if ext = ''txt'' then Inr (x_decode X content, TXT)
      else if ext \<in> set [''html'', ''htm''] then
        (case x_html X content of None \<Rightarrow> Inl LibraryError | Some text \<Rightarrow> Inr (text, HTML))
      else Inl (UnsupportedFileType ext))"

section \<open>EmbeddingService\<close>

text \<open>
  Modelled from the spec: \<^verbatim>\<open>EmbeddingService.embed_batch\<close> and \<^verbatim>\<open>embed_text\<close>
  (embeddings.py is not among the sources). The embedding client is deterministic and
  returns one vector per text, in order.
\<close>

definition embed_text :: "externals \<Rightarrow> string \<Rightarrow> real list" where
  "embed_text X text = x_embed X text"

definition embed_batch :: "externals \<Rightarrow> string list \<Rightarrow> real list list" where
  "embed_batch X texts = map (x_embed X) texts"

section \<open>VectorStore\<close>

text \<open>
  The collection is the list of its entries in insertion order. \<^verbatim>\<open>collection.add\<close>
  raises (\<open>None\<close>) when the four columns differ in length; otherwise it appends one entry
  per id, except that an id already present in the collection is ignored and its stored
  entry is kept.
\<close>

definition collection_add ::
  "entry list \<Rightarrow> string list \<Rightarrow> real list list \<Rightarrow> string list \<Rightarrow> metadata list \<Rightarrow> entry list option" where
  "collection_add coll ids embeddings docs metadatas =
     (if length embeddings = length ids \<and> length docs = length ids \<and> length metadatas = length ids
      then Some (coll @ filter (\<lambda>e. e_id e \<notin> set (map e_id coll))
                          (map (\<lambda>i. \<lparr>e_id = ids ! i, e_embedding = embeddings ! i,
                                       e_document = docs ! i, e_metadata = metadatas ! i\<rparr>)
                               [0..<length ids]))
      else None)"

text \<open>\<^verbatim>\<open>{**metadata, key: value}\<close>.\<close>

definition md_set :: "string \<Rightarrow> md_value \<Rightarrow> metadata \<Rightarrow> metadata" where
  "md_set key v md = AList.update key v md"

definition vs_add_document ::
  "entry list \<Rightarrow> string \<Rightarrow> string list \<Rightarrow> real list list \<Rightarrow> metadata \<Rightarrow> (int \<times> entry list) option" where
  "vs_add_document coll doc_id chunks embeddings metadata =
     (let ids = map (\<lambda>i. doc_id @ ''_'' @ str_nat i) [0..<length chunks];
          metadatas = map (\<lambda>i. md_set ''document_id'' (MStr doc_id)
                                   (md_set ''chunk_index'' (MInt (int i)) metadata))
                          [0..<length chunks]
      in case collection_add coll ids embeddings chunks metadatas of
           None \<Rightarrow> None
         | Some coll' \<Rightarrow> Some (int (length chunks), coll'))"

text \<open>The result dictionaries of \<open>search\<close>.\<close>

record raw_result =
  rr_id :: string
  rr_document :: string
  rr_metadata :: metadata
  rr_score :: real

text \<open>The loop over the hits of the query: distance to score, then the threshold.\<close>

fun search_loop :: "hit list \<Rightarrow> real \<Rightarrow> raw_result list \<Rightarrow> raw_result list" where
  "search_loop [] min_score search_results = search_results"
| "search_loop (h # hs) min_score search_results =
     (let distance = hit_distance h;
          score = 1 - distance
      in if score \<ge> min_score then
           search_loop hs min_score
             (search_results @ [\<lparr>rr_id = hit_id h, rr_document = hit_document h,
                                  rr_metadata = hit_metadata h, rr_score = score\<rparr>])
         else search_loop hs min_score search_results)"

definition search :: "externals \<Rightarrow> entry list \<Rightarrow> real list \<Rightarrow> int \<Rightarrow> real \<Rightarrow> raw_result list" where
  "search X coll query_embedding top_k min_score =
     (let results = x_query X coll query_embedding top_k
      in search_loop results min_score [])"

text \<open>\<^verbatim>\<open>collection.get(where={"document_id": doc_id})\<close> selects the entries matched here.\<close>

definition has_document_id :: "string \<Rightarrow> entry \<Rightarrow> bool" where
  "has_document_id doc_id e \<longleftrightarrow> map_of (e_metadata e) ''document_id'' = Some (MStr doc_id)"

definition vs_delete_document :: "entry list \<Rightarrow> string \<Rightarrow> bool \<times> entry list" where
  "vs_delete_document coll doc_id =
     (let ids = map e_id (filter (has_document_id doc_id) coll)
      in if ids \<noteq> [] then (True, filter (\<lambda>e. e_id e \<notin> set ids) coll)
         else (False, coll))"


section \<open>RAGEngine\<close>

text \<open>
  The engine: its processor, the registry \<open>documents\<close> (a Python dictionary, kept as an
  association list in insertion order) and the collection of the vector store.
\<close>

record engine =
  eng_processor :: processor
  documents :: "(string \<times> Document) list"
  vector_store :: "entry list"

definition init_engine :: engine where
  "init_engine = \<lparr>eng_processor = default_processor, documents = [], vector_store = []\<rparr>"

subsection \<open>The answer synthesizer\<close>

text \<open>The loop that collects the sentences sharing a word with the query.\<close>

fun relevant_loop :: "string set \<Rightarrow> string list \<Rightarrow> string list \<Rightarrow> string list" where
  "relevant_loop query_words [] relevant_sentences = relevant_sentences"
| "relevant_loop query_words (s # rest) relevant_sentences =
     (let sentence = strip s in
      if sentence = [] then relevant_loop query_words rest relevant_sentences
      else
        let sentence_lower = str_lower sentence;
            sentence_words = set (str_words sentence_lower);
            overlap = card (query_words \<inter> sentence_words)
        in if overlap \<ge> 1 then relevant_loop query_words rest (relevant_sentences @ [sentence])
           else relevant_loop query_words rest relevant_sentences)"

definition no_information :: string where
  "no_information = ''No relevant information found in the documents.''"

definition source_note :: "string \<Rightarrow> string" where
  "source_note filename = [CHR 0x0A, CHR 0x0A] @ ''(Source: '' @ filename @ '')''"

definition synthesize_answer :: "string \<Rightarrow> SearchResult list \<Rightarrow> string" where
  "synthesize_answer query results =
     (case results of
        [] \<Rightarrow> no_information
      | best_result # _ \<Rightarrow>
          (let query_lower = str_lower query;
               context = sr_chunk best_result;
               sentences = str_split CHR ''.'' context;
               query_words = set (str_words query_lower);
               relevant_sentences = relevant_loop query_words sentences [];
               answer =
                 (if relevant_sentences \<noteq> [] then join ''. '' (take 3 relevant_sentences) @ ''.''
                  else
                    (let answer = strip (join ''. '' (take 2 sentences))
                     in if answer \<noteq> [] \<and> \<not> ends_with_period answer then answer @ ''.''
                        else answer))
           in answer @ source_note (sr_filename best_result)))"

subsection \<open>Queries\<close>

text \<open>
  \<^verbatim>\<open>metadata.get(key, default)\<close> read into a string field of \<open>SearchResult\<close>: the model
  class rejects an integer value.
\<close>

definition md_get_str :: "metadata \<Rightarrow> string \<Rightarrow> string \<Rightarrow> string option" where
  "md_get_str md key dflt =
     (case map_of md key of None \<Rightarrow> Some dflt | Some (MStr s) \<Rightarrow> Some s | Some (MInt i) \<Rightarrow> None)"

fun format_results :: "raw_result list \<Rightarrow> SearchResult list option" where
  "format_results [] = Some []"
| "format_results (r # rs) =
     (case (md_get_str (rr_metadata r) ''document_id'' '''',
            md_get_str (rr_metadata r) ''filename'' ''Unknown'') of
        (Some document_id, Some filename) \<Rightarrow>
          map_option
            (\<lambda>results. \<lparr>sr_document_id = document_id, sr_filename = filename,
                          sr_chunk = rr_document r, sr_score = rr_score r,
                          sr_metadata = rr_metadata r\<rparr> # results)
            (format_results rs)
      | _ \<Rightarrow> None)"

text \<open>\<open>query\<close> reads the engine and assigns to none of its fields.\<close>

definition query :: "externals \<Rightarrow> engine \<Rightarrow> QueryRequest \<Rightarrow> error + QueryResponse" where
  "query X s request =
     (let query_embedding = embed_text X (q_query request);
          raw_results = search X (vector_store s) query_embedding (q_top_k request) (q_min_score request)
      in case format_results raw_results of
           None \<Rightarrow> Inl ValidationError
         | Some results \<Rightarrow>
             Inr \<lparr>qr_query = q_query request, qr_results = results,
                  qr_answer = synthesize_answer (q_query request) results\<rparr>)"

subsection \<open>Ingestion and deletion\<close>

text \<open>
  \<open>add_document\<close> takes the identifier drawn by \<^verbatim>\<open>str(uuid.uuid4())[:8]\<close> as the argument
  \<open>doc_id\<close>. An exception leaves the engine as it was.
\<close>

definition add_document ::
  "externals \<Rightarrow> engine \<Rightarrow> string \<Rightarrow> string \<Rightarrow> string \<Rightarrow> error + (DocumentUploadResponse \<times> engine)" where
  "add_document X s doc_id content filename =
     (case extract_text X content filename of
        Inl e \<Rightarrow> Inl e
      | Inr (text, doc_type) \<Rightarrow>
          (case chunk_text (eng_processor s) text of
             None \<Rightarrow> Inl NoReturn
           | Some chunks \<Rightarrow>
               if chunks = [] then
                 Inr (\<lparr>resp_id = doc_id, resp_filename = filename, chunks_created = 0,
                       message = ''No content could be extracted from document''\<rparr>, s)
               else
                 (let embeddings = embed_batch X chunks in
                  case vs_add_document (vector_store s) doc_id chunks embeddings
                         [(''filename'', MStr filename), (''doc_type'', MStr (doc_type_value doc_type))] of
                    None \<Rightarrow> Inl LibraryError
                  | Some (n, coll) \<Rightarrow>
                      Inr (\<lparr>resp_id = doc_id, resp_filename = filename,
                            chunks_created = int (length chunks),
                            message = ''Document indexed successfully with ''
                                        @ str_nat (length chunks) @ '' chunks''\<rparr>,
                           s\<lparr>vector_store := coll,
                             documents := AList.update doc_id
                               \<lparr>d_id = doc_id, d_filename = filename, d_doc_type = doc_type,
                                d_content = text, d_chunks = chunks\<rparr> (documents s)\<rparr>))))"

definition delete_document :: "engine \<Rightarrow> string \<Rightarrow> bool \<times> engine" where
  "delete_document s doc_id =
     (if map_of (documents s) doc_id \<noteq> None then
        (True, s\<lparr>vector_store := snd (vs_delete_document (vector_store s) doc_id),
                 documents := AList.delete doc_id (documents s)\<rparr>)
      else (False, s))"


subsection \<open>Sequences of operations\<close>

datatype operation =
    AddDocument string string string
  | Query QueryRequest
  | DeleteDocument string

fun step :: "externals \<Rightarrow> engine \<Rightarrow> operation \<Rightarrow> engine" where
  "step X s (AddDocument doc_id content filename) =
     (case add_document X s doc_id content filename of Inl e \<Rightarrow> s | Inr (response, s') \<Rightarrow> s')"
| "step X s (Query request) = s"
| "step X s (DeleteDocument doc_id) = snd (delete_document s doc_id)"

fun run :: "externals \<Rightarrow> engine \<Rightarrow> operation list \<Rightarrow> engine" where
  "run X s [] = s"
| "run X s (operation # rest) = run X (step X s operation) rest"


text \<open>
  Stand-ins for the libraries in the examples: every parser returns the bytes as text, the
  embedding of a text is the one-element vector of its length, and the query returns the
  \<open>n_results\<close> first entries, each at distance \<open>0\<close>.
\<close>

definition example_externals :: externals where
  "example_externals =
     \<lparr>x_pdf = Some, x_docx = Some, x_html = Some, x_decode = id,
      x_embed = (\<lambda>text. [real (length text)]),
      x_query = (\<lambda>coll q k. map (\<lambda>e. \<lparr>hit_id = e_id e, hit_document = e_document e,
                                          hit_metadata = e_metadata e, hit_distance = 0\<rparr>)
                                (take (nat k) coll))\<rparr>"

text \<open>A query that answers with three fixed hits in ascending distance.\<close>

definition three_hits :: "hit list" where
  "three_hits =
     [\<lparr>hit_id = ''a_0'', hit_document = ''first'', hit_metadata = [], hit_distance = 0.1\<rparr>,
      \<lparr>hit_id = ''b_0'', hit_document = ''second'', hit_metadata = [], hit_distance = 0.5\<rparr>,
      \<lparr>hit_id = ''a_1'', hit_document = ''third'', hit_metadata = [], hit_distance = 0.9\<rparr>]"

definition ranked_externals :: externals where
  "ranked_externals = example_externals\<lparr>x_query := (\<lambda>coll q k. three_hits)\<rparr>"

text \<open>A short session: two ingestions, a query in between, and the deletion of the second document.\<close>

definition example_ops :: "operation list" where
  "example_ops =
     [AddDocument ''ab12cd34'' ''Working hours are 9 AM to 5 PM. Lunch is at noon.'' ''policy.txt'',
      Query \<lparr>q_query = ''What are the working hours?'', q_top_k = 5, q_min_score = 0.3\<rparr>,
      AddDocument ''0f0f0f0f'' ''Remote work is permitted.'' ''remote.txt'',
      DeleteDocument ''0f0f0f0f'']"




section \<open>Invariants of the engine\<close>

text \<open>
  The registry has one entry per key, every registered document is stored under its own
  id, and every entry of the collection carries the document id of a registered document
  and an entry id made of that document id, an underscore and a decimal index.
\<close>

definition consistent :: "engine \<Rightarrow> bool" where
  "consistent s \<longleftrightarrow>
     distinct (map fst (documents s))
     \<and> (\<forall>k doc. map_of (documents s) k = Some doc \<longrightarrow> d_id doc = k)
     \<and> (\<forall>e \<in> set (vector_store s). \<exists>d. has_document_id d e \<and> map_of (documents s) d \<noteq> None
            \<and> (\<exists>i. e_id e = d @ ''_'' @ str_nat i))"


section \<open>The answer synthesizer as the specification words it\<close>

text \<open>
  The specification's description of the synthesizer, to be compared with
  \<open>synthesize_answer\<close>: the qualifying sentences are the trimmed, non-empty pieces of the
  top chunk between dots whose lower-case words meet the lower-case words of the query;
  the body is the first three of them joined by \<open>". "\<close> with a final period, or else the
  first two pieces of the chunk joined the same way and trimmed, always made to end with a
  period; the source note follows after a blank line.
\<close>

definition qualifying_sentences :: "string \<Rightarrow> string \<Rightarrow> string list" where
  "qualifying_sentences query_string context =
     filter (\<lambda>s. s \<noteq> [] \<and> set (str_words (str_lower s)) \<inter> set (str_words (str_lower query_string)) \<noteq> {})
            (map strip (str_split CHR ''.'' context))"

definition with_period :: "string \<Rightarrow> string" where
  "with_period a = (if ends_with_period a then a else a @ ''.'')"

definition synthesize_claimed :: "string \<Rightarrow> SearchResult list \<Rightarrow> string" where
  "synthesize_claimed query_string ranked_results =
     (case ranked_results of
        [] \<Rightarrow> ''No relevant information found in the documents.''
      | first # _ \<Rightarrow>
          (let qualifying = qualifying_sentences query_string (sr_chunk first);
               body = (if qualifying \<noteq> [] then join ''. '' (take 3 qualifying) @ ''.''
                       else with_period (strip (join ''. '' (take 2 (str_split CHR ''.'' (sr_chunk first))))))
           in body @ [CHR 0x0A, CHR 0x0A] @ ''(Source: '' @ sr_filename first @ '')''))"

text \<open>Two search results for the examples: a blank chunk and a chunk of three sentences.\<close>

definition blank_result :: SearchResult where
  "blank_result = \<lparr>sr_document_id = ''ab12cd34'', sr_filename = ''policy.txt'', sr_chunk = '' '',
                    sr_score = 1, sr_metadata = []\<rparr>"

definition hours_result :: SearchResult where
  "hours_result = \<lparr>sr_document_id = ''ab12cd34'', sr_filename = ''policy.txt'',
                    sr_chunk = ''Working hours are 9 AM to 5 PM. Lunch is at noon. Remote work is permitted.'',
                    sr_score = 1, sr_metadata = []\<rparr>"

section \<open>Properties of the chunker\<close>

lemma keep_overlap_stop:
  "\<not> (int (length (join '' '' cur)) > ov \<and> cur \<noteq> []) \<Longrightarrow> keep_overlap ov cur = Some cur"
  by (subst keep_overlap.simps) auto

lemma keep_overlap_pop:
  "int (length (join '' '' cur)) > ov \<Longrightarrow> cur \<noteq> [] \<Longrightarrow> keep_overlap ov cur = keep_overlap ov (tl cur)"
  by (subst keep_overlap.simps) auto

lemma keep_overlap_returns:
  "\<exists>kept dropped. keep_overlap ov cur = Some kept \<and> cur = dropped @ kept
      \<and> (kept = [] \<or> int (length (join '' '' kept)) \<le> ov)"
proof (induction cur)
  case Nil
  show ?case by (simp add: keep_overlap_stop)
next
  case (Cons x xs)
  show ?case
  proof (cases "int (length (join '' '' (x # xs))) > ov")
    case True
    then have "keep_overlap ov (x # xs) = keep_overlap ov xs"
      by (simp add: keep_overlap_pop)
    moreover from Cons obtain kept dropped where
      "keep_overlap ov xs = Some kept" "xs = dropped @ kept"
      "kept = [] \<or> int (length (join '' '' kept)) \<le> ov" by blast
    ultimately show ?thesis
      by (metis append_Cons)
  next
    case False
    then have "keep_overlap ov (x # xs) = Some (x # xs)"
      by (simp add: keep_overlap_stop)
    with False show ?thesis by (metis append_Nil not_less)
  qed
qed

lemma chunk_loop_returns: "\<exists>out. chunk_loop p ss cur cl chunks = Some out"
proof (induction ss arbitrary: cur cl chunks)
  case Nil
  show ?case by simp
next
  case (Cons s ss)
  obtain kept where k: "keep_overlap (chunk_overlap p) cur = Some kept"
    using keep_overlap_returns by blast
  show ?case using Cons k by (simp add: Let_def)
qed

lemma length_join_snoc:
  "length (join sep (xs @ [s])) = (if xs = [] then length s else length (join sep xs) + length sep + length s)"
  by (induction sep xs rule: join.induct) auto


lemma chunk_loop_bound:
  assumes "chunk_loop p ss cur cl chunks = Some out"
    and "0 \<le> chunk_overlap p"
    and "all = pre @ cur @ ss"
    and "int (length (join '' '' cur)) \<le> cl"
    and "int (length (join '' '' cur)) \<le> chunk_size p + chunk_overlap p + 1
           \<or> (\<exists>u \<in> set cur. chunk_size p < int (length u))"
    and "c \<in> set out"
  shows "c \<in> set chunks \<or>
     (\<exists>pre' us post. all = pre' @ us @ post \<and> c = join '' '' us \<and>
        (int (length c) \<le> chunk_size p + chunk_overlap p + 1
           \<or> (\<exists>u \<in> set us. chunk_size p < int (length u))))"
  using assms
proof (induction ss arbitrary: cur cl chunks pre)
  case Nil
  show ?case
  proof (cases "c \<in> set chunks")
    case True then show ?thesis ..
  next
    case False
    with Nil.prems(1,6) have c: "c = join '' '' cur" by (auto split: if_splits)
    have "all = pre @ cur @ []" using Nil.prems(3) .
    with c Nil.prems(5) show ?thesis by blast
  qed
next
  case (Cons s ss)
  show ?case
  proof (cases "cl + int (length s) > chunk_size p \<and> cur \<noteq> []")
    case True
    obtain kept dropped where k: "keep_overlap (chunk_overlap p) cur = Some kept"
      and d: "cur = dropped @ kept"
      and kb: "kept = [] \<or> int (length (join '' '' kept)) \<le> chunk_overlap p"
      using keep_overlap_returns by blast
    let ?cl = "int (length (join '' '' kept)) + int (length s) + 1"
    from True k Cons.prems(1) have run:
      "chunk_loop p ss (kept @ [s]) ?cl (chunks @ [join '' '' cur]) = Some out"
      by (simp add: Let_def)
    have all: "all = (pre @ dropped) @ (kept @ [s]) @ ss"
      using Cons.prems(3) d by simp
    have len: "int (length (join '' '' (kept @ [s]))) \<le> ?cl"
      by (simp add: length_join_snoc)
    have good: "int (length (join '' '' (kept @ [s]))) \<le> chunk_size p + chunk_overlap p + 1
           \<or> (\<exists>u \<in> set (kept @ [s]). chunk_size p < int (length u))"
    proof (cases "chunk_size p < int (length s)")
      case True
      then show ?thesis by simp
    next
      case False
      with kb have "int (length (join '' '' (kept @ [s]))) \<le> chunk_size p + chunk_overlap p + 1"
        using Cons.prems(2) by (auto simp: length_join_snoc)
      then show ?thesis ..
    qed
    from Cons.IH[OF run Cons.prems(2) all len good Cons.prems(6)]
    show ?thesis
    proof
      assume "c \<in> set (chunks @ [join '' '' cur])"
      then consider "c \<in> set chunks" | "c = join '' '' cur" by auto
      then show ?thesis
      proof cases
        case 1 then show ?thesis ..
      next
        case 2
        have "all = pre @ cur @ (s # ss)" using Cons.prems(3) .
        with 2 Cons.prems(5) show ?thesis by blast
      qed
    next
      assume "\<exists>pre' us post. all = pre' @ us @ post \<and> c = join '' '' us \<and>
        (int (length c) \<le> chunk_size p + chunk_overlap p + 1
           \<or> (\<exists>u \<in> set us. chunk_size p < int (length u)))"
      then show ?thesis ..
    qed
  next
    case False
    let ?cl = "cl + int (length s) + 1"
    from False Cons.prems(1) have run:
      "chunk_loop p ss (cur @ [s]) ?cl chunks = Some out"
      by (auto simp: Let_def)
    have all: "all = pre @ (cur @ [s]) @ ss"
      using Cons.prems(3) by simp
    have len: "int (length (join '' '' (cur @ [s]))) \<le> ?cl"
      using Cons.prems(4) by (simp add: length_join_snoc)
    have good: "int (length (join '' '' (cur @ [s]))) \<le> chunk_size p + chunk_overlap p + 1
           \<or> (\<exists>u \<in> set (cur @ [s]). chunk_size p < int (length u))"
    proof (cases "cur = []")
      case True
      then show ?thesis using Cons.prems(2) by (cases "chunk_size p < int (length s)") auto
    next
      case False
      with \<open>\<not> (cl + int (length s) > chunk_size p \<and> cur \<noteq> [])\<close>
      have "cl + int (length s) \<le> chunk_size p" by simp
      with False Cons.prems(2,4)
      have "int (length (join '' '' (cur @ [s]))) \<le> chunk_size p + chunk_overlap p + 1"
        by (simp add: length_join_snoc)
      then show ?thesis ..
    qed
    from Cons.IH[OF run Cons.prems(2) all len good Cons.prems(6)]
    show ?thesis .
  qed
qed

subsection \<open>Termination\<close>

text \<open>
  Claim C9. The chunking function returns on every input string and every configuration:
  the overlap-shrinking loop returns a buffer no longer than the one it was given (each round
  pops one unit and the loop stops at the latest on the empty buffer), and the whole of
  \<open>chunk_text\<close> returns a list of chunks. Nothing is assumed about the signs of
  \<open>chunk_size\<close> and \<open>chunk_overlap\<close>.
\<close>

theorem chunk_text_terminates:
  "(\<exists>kept. keep_overlap overlap current_chunk = Some kept \<and> length kept \<le> length current_chunk)
   \<and> (\<exists>chunks. chunk_text p text = Some chunks)"
proof
  obtain kept dropped where "keep_overlap overlap current_chunk = Some kept"
    "current_chunk = dropped @ kept"
    using keep_overlap_returns by blast
  then show "\<exists>kept. keep_overlap overlap current_chunk = Some kept \<and> length kept \<le> length current_chunk"
    by auto
next
  show "\<exists>chunks. chunk_text p text = Some chunks"
    using chunk_loop_returns by (simp add: chunk_text_def Let_def)
qed

subsection \<open>No unit is lost\<close>



subsection \<open>Length of the emitted chunks\<close>

text \<open>
  Claim C2, as amended. For positive \<open>chunk_size\<close>, non-negative \<open>chunk_overlap\<close> and
  a normalized text longer than \<open>chunk_size\<close>, every emitted chunk is the join of a
  contiguous run of the sentence-like units, and its length is at most
  \<open>chunk_size + chunk_overlap + 1\<close> unless one of its units is itself longer than
  \<open>chunk_size\<close>. The bound \<open>chunk_size\<close> of the claim does not hold: after a flush the
  retained overlap tail and the next unit are put together without a new length check.
\<close>

theorem chunk_length_bound:
  assumes "0 < chunk_size p" and "0 \<le> chunk_overlap p"
    and "chunk_size p < int (length (clean_text text))"
  shows "\<exists>chunks. chunk_text p text = Some chunks \<and>
     (\<forall>c \<in> set chunks. \<exists>pre us post.
        split_sentences (clean_text text) = pre @ us @ post \<and> c = join '' '' us \<and>
        (int (length c) \<le> chunk_size p + chunk_overlap p + 1
           \<or> (\<exists>u \<in> set us. chunk_size p < int (length u))))"
proof -
  let ?ss = "split_sentences (clean_text text)"
  from assms(3) have eq: "chunk_text p text = chunk_loop p ?ss [] 0 []"
    by (simp add: chunk_text_def Let_def)
  obtain out where out: "chunk_loop p ?ss [] 0 [] = Some out"
    using chunk_loop_returns by blast
  have "\<exists>pre us post. ?ss = pre @ us @ post \<and> c = join '' '' us \<and>
        (int (length c) \<le> chunk_size p + chunk_overlap p + 1
           \<or> (\<exists>u \<in> set us. chunk_size p < int (length u)))" if "c \<in> set out" for c
    using chunk_loop_bound[OF out assms(2), of ?ss "[]" c] that assms(1,2) by simp
  with eq out show ?thesis by simp
qed

theorem chunk_length_bound_witness:
  "0 < chunk_size \<lparr>chunk_size = 10, chunk_overlap = 3\<rparr>
   \<and> 0 \<le> chunk_overlap \<lparr>chunk_size = 10, chunk_overlap = 3\<rparr>
   \<and> chunk_size \<lparr>chunk_size = 10, chunk_overlap = 3\<rparr> < int (length (clean_text ''aaaaaa. b. cccccccc.''))
   \<and> chunk_text \<lparr>chunk_size = 10, chunk_overlap = 3\<rparr> ''aaaaaa. b. cccccccc.''
       = Some [''aaaaaa. b.'', ''b. cccccccc.'']
   \<and> (\<exists>pre us post.
        split_sentences (clean_text ''aaaaaa. b. cccccccc.'') = pre @ us @ post
        \<and> ''b. cccccccc.'' = join '' '' us
        \<and> (int (length ''b. cccccccc.'') \<le> 10 + 3 + 1 \<or> (\<exists>u \<in> set us. 10 < int (length u))))"
proof -
  have h1: "0 < chunk_size \<lparr>chunk_size = 10, chunk_overlap = 3\<rparr>" by simp
  have h2: "0 \<le> chunk_overlap \<lparr>chunk_size = 10, chunk_overlap = 3\<rparr>" by simp
  have h3: "chunk_size \<lparr>chunk_size = 10, chunk_overlap = 3\<rparr> < int (length (clean_text ''aaaaaa. b. cccccccc.''))"
    by code_simp
  have v: "chunk_text \<lparr>chunk_size = 10, chunk_overlap = 3\<rparr> ''aaaaaa. b. cccccccc.''
       = Some [''aaaaaa. b.'', ''b. cccccccc.'']"
    by code_simp
  from chunk_length_bound[OF h1 h2 h3] v h1 h2 h3 show ?thesis by simp
qed

text \<open>
  With \<open>chunk_size = 10\<close> and \<open>chunk_overlap = 3\<close> the text \<open>aaaaaa. b. cccccccc.\<close>
  has three units, none longer than 10, and the second chunk has 12 characters.
\<close>

theorem chunk_exceeds_chunk_size_counterexample:
  "chunk_text \<lparr>chunk_size = 10, chunk_overlap = 3\<rparr> ''aaaaaa. b. cccccccc.''
       = Some [''aaaaaa. b.'', ''b. cccccccc.'']
   \<and> split_sentences (clean_text ''aaaaaa. b. cccccccc.'') = [''aaaaaa.'', ''b.'', ''cccccccc.'']
   \<and> \<not> length ''b. cccccccc.'' \<le> 10
   \<and> \<not> 10 < length ''aaaaaa.'' \<and> \<not> 10 < length ''b.'' \<and> \<not> 10 < length ''cccccccc.''"
  by code_simp

section \<open>Ranking of the search results\<close>

lemma search_loop_filter:
  "search_loop hs min_score acc =
     acc @ map (\<lambda>h. \<lparr>rr_id = hit_id h, rr_document = hit_document h,
                      rr_metadata = hit_metadata h, rr_score = 1 - hit_distance h\<rparr>)
               (filter (\<lambda>h. 1 - hit_distance h \<ge> min_score) hs)"
  by (induction hs arbitrary: acc) (simp_all add: Let_def)

lemma scores_descending:
  "sorted (map hit_distance hs) \<Longrightarrow>
     sorted_wrt (\<lambda>a b. a \<ge> b) (map (\<lambda>h. 1 - hit_distance h) (filter P hs))"
  by (induction hs) auto

text \<open>
  Claim C1. Whenever the nearest-neighbour query answers with at most \<open>top_k\<close> hits in
  ascending distance (its contract), \<open>search\<close> turns every distance \<open>d\<close> into the score
  \<open>1 - d\<close>, keeps exactly the hits whose score is at least \<open>min_score\<close>, in the order of
  the query, returns at most \<open>top_k\<close> results, and the scores of the results never
  increase along the list.
\<close>

theorem search_ranked:
  assumes "int (length (x_query X coll query_embedding top_k)) \<le> top_k"
    and "sorted (map hit_distance (x_query X coll query_embedding top_k))"
  shows "search X coll query_embedding top_k min_score =
           map (\<lambda>h. \<lparr>rr_id = hit_id h, rr_document = hit_document h,
                      rr_metadata = hit_metadata h, rr_score = 1 - hit_distance h\<rparr>)
               (filter (\<lambda>h. 1 - hit_distance h \<ge> min_score) (x_query X coll query_embedding top_k))
         \<and> (\<forall>r \<in> set (search X coll query_embedding top_k min_score). rr_score r \<ge> min_score)
         \<and> int (length (search X coll query_embedding top_k min_score)) \<le> top_k
         \<and> sorted_wrt (\<lambda>a b. a \<ge> b) (map rr_score (search X coll query_embedding top_k min_score))"
proof -
  let ?hits = "x_query X coll query_embedding top_k"
  let ?keep = "filter (\<lambda>h. 1 - hit_distance h \<ge> min_score) ?hits"
  have eq: "search X coll query_embedding top_k min_score =
           map (\<lambda>h. \<lparr>rr_id = hit_id h, rr_document = hit_document h,
                      rr_metadata = hit_metadata h, rr_score = 1 - hit_distance h\<rparr>) ?keep"
    by (simp add: search_def search_loop_filter)
  have thr: "\<forall>r \<in> set (search X coll query_embedding top_k min_score). rr_score r \<ge> min_score"
    unfolding eq by auto
  have "int (length ?keep) \<le> int (length ?hits)" by simp
  with assms(1) have "int (length ?keep) \<le> top_k" by linarith
  then have len: "int (length (search X coll query_embedding top_k min_score)) \<le> top_k"
    unfolding eq by simp
  have "map rr_score (search X coll query_embedding top_k min_score) = map (\<lambda>h. 1 - hit_distance h) ?keep"
    unfolding eq by (simp add: comp_def)
  with scores_descending[OF assms(2)]
  have srt: "sorted_wrt (\<lambda>a b. a \<ge> b) (map rr_score (search X coll query_embedding top_k min_score))"
    by simp
  from eq thr len srt show ?thesis by blast
qed

theorem search_ranked_witness:
  "int (length (x_query ranked_externals [] [1] 5)) \<le> 5
   \<and> sorted (map hit_distance (x_query ranked_externals [] [1] 5))
   \<and> map rr_score (search ranked_externals [] [1] 5 0.3) = [0.9, 0.5]
   \<and> sorted_wrt (\<lambda>a b. a \<ge> b) (map rr_score (search ranked_externals [] [1] 5 0.3))"
proof -
  let ?X = "ranked_externals"
  have h1: "int (length (x_query ?X [] [1] 5)) \<le> 5" by (simp add: ranked_externals_def three_hits_def)
  have h2: "sorted (map hit_distance (x_query ?X [] [1] 5))" by (simp add: ranked_externals_def three_hits_def)
  have v: "map rr_score (search ?X [] [1] 5 0.3) = [0.9, 0.5]"
    by (simp add: search_def ranked_externals_def three_hits_def Let_def)
  from search_ranked[OF h1 h2, of "0.3"] h1 h2 v show ?thesis by simp
qed

section \<open>Unsupported file types\<close>

text \<open>
  Claim C5, as amended. \<open>extract_text\<close>, and with it \<open>add_document\<close>, fails with the
  unsupported-file-type error exactly when the lower-cased text after the last dot of the
  file name is none of \<open>pdf\<close>, \<open>docx\<close>, \<open>txt\<close>, \<open>html\<close>, \<open>htm\<close>.
\<close>

theorem unsupported_file_type_iff:
  "((\<exists>ext. extract_text X content filename = Inl (UnsupportedFileType ext))
      \<longleftrightarrow> file_ext filename \<notin> set [''pdf'', ''docx'', ''txt'', ''html'', ''htm''])
   \<and> ((\<exists>ext. add_document X s doc_id content filename = Inl (UnsupportedFileType ext))
      \<longleftrightarrow> file_ext filename \<notin> set [''pdf'', ''docx'', ''txt'', ''html'', ''htm''])"
proof
  show ex: "(\<exists>ext. extract_text X content filename = Inl (UnsupportedFileType ext))
      \<longleftrightarrow> file_ext filename \<notin> set [''pdf'', ''docx'', ''txt'', ''html'', ''htm'']"
    by (auto simp: extract_text_def Let_def split: option.splits)
  have "(\<exists>ext. add_document X s doc_id content filename = Inl (UnsupportedFileType ext))
      \<longleftrightarrow> (\<exists>ext. extract_text X content filename = Inl (UnsupportedFileType ext))"
    by (auto simp: add_document_def Let_def split: sum.splits option.splits prod.splits)
  with ex show "(\<exists>ext. add_document X s doc_id content filename = Inl (UnsupportedFileType ext))
      \<longleftrightarrow> file_ext filename \<notin> set [''pdf'', ''docx'', ''txt'', ''html'', ''htm'']"
    by simp
qed

text \<open>
  The extension \<open>htm\<close> is outside the set of the claim and is accepted as HTML.
\<close>

theorem htm_extension_counterexample:
  "file_ext ''page.htm'' \<notin> set [''pdf'', ''docx'', ''txt'', ''html'']
   \<and> extract_text example_externals ''<p>x</p>'' ''page.htm'' = Inr (''<p>x</p>'', HTML)"
  by code_simp

section \<open>Ingestion without content\<close>

text \<open>
  Claim C6. When the extracted text yields no chunk, \<open>add_document\<close> succeeds with
  \<open>chunks_created = 0\<close> and the message that no content could be extracted, and returns
  the engine it was given: registry and collection are unchanged.
\<close>

theorem zero_chunks_leave_engine_unchanged:
  assumes "extract_text X content filename = Inr (text, doc_type)"
    and "chunk_text (eng_processor s) text = Some []"
  shows "add_document X s doc_id content filename =
           Inr (\<lparr>resp_id = doc_id, resp_filename = filename, chunks_created = 0,
                 message = ''No content could be extracted from document''\<rparr>, s)"
  using assms by (simp add: add_document_def)

theorem zero_chunks_leave_engine_unchanged_witness:
  "extract_text example_externals ''  '' ''blank.txt'' = Inr (''  '', TXT)
   \<and> chunk_text (eng_processor init_engine) ''  '' = Some []
   \<and> add_document example_externals init_engine ''ab12cd34'' ''  '' ''blank.txt'' =
           Inr (\<lparr>resp_id = ''ab12cd34'', resp_filename = ''blank.txt'', chunks_created = 0,
                 message = ''No content could be extracted from document''\<rparr>, init_engine)"
proof -
  have h1: "extract_text example_externals ''  '' ''blank.txt'' = Inr (''  '', TXT)" by code_simp
  have h2: "chunk_text (eng_processor init_engine) ''  '' = Some []" by code_simp
  from zero_chunks_leave_engine_unchanged[OF h1 h2] h1 h2 show ?thesis by simp
qed

section \<open>Registry and collection\<close>

subsection \<open>Entry ids determine the document id\<close>

lemma digit_char_not_underscore: "d < 10 \<Longrightarrow> digit_char d \<noteq> CHR ''_''"
proof
  assume d: "d < 10" and "digit_char d = CHR ''_''"
  then have "(of_char (char_of (48 + d)) :: nat) = of_char CHR ''_''"
    by (simp add: digit_char_def)
  with d show False by simp
qed

lemma underscore_notin_str_nat: "CHR ''_'' \<notin> set (str_nat n)"
proof (induction n rule: str_nat.induct)
  case (1 n)
  show ?case
  proof (cases "n < 10")
    case True
    then show ?thesis
      using digit_char_not_underscore[of n] by (subst str_nat.simps) auto
  next
    case False
    have "n mod 10 < 10" by simp
    then have "digit_char (n mod 10) \<noteq> CHR ''_''" by (rule digit_char_not_underscore)
    with False 1 show ?thesis
      by (subst str_nat.simps) auto
  qed
qed

lemma id_prefix_inj:
  assumes "d @ ''_'' @ a = d' @ ''_'' @ b" and "CHR ''_'' \<notin> set a" and "CHR ''_'' \<notin> set b"
  shows "d = d'"
  using assms
  by (auto simp: append_eq_append_conv2 Cons_eq_append_conv append_eq_Cons_conv)

lemma entry_id_inj: "d @ ''_'' @ str_nat i = d' @ ''_'' @ str_nat j \<Longrightarrow> d = d'"
  using id_prefix_inj underscore_notin_str_nat by blast

lemma has_document_id_unique: "has_document_id d e \<Longrightarrow> has_document_id d' e \<Longrightarrow> d = d'"
  by (simp add: has_document_id_def)

subsection \<open>What the operations do to the state\<close>

lemma vs_delete_document_snd:
  "snd (vs_delete_document coll d) =
     filter (\<lambda>e. e_id e \<notin> e_id ` set (filter (has_document_id d) coll)) coll"
proof (cases "filter (has_document_id d) coll = []")
  case True
  then show ?thesis by (simp add: vs_delete_document_def)
next
  case False
  then show ?thesis by (simp add: vs_delete_document_def Let_def)
qed

lemma has_document_id_md_set:
  "has_document_id d (e\<lparr>e_metadata := md_set ''document_id'' (MStr d) md\<rparr>)"
  by (simp add: has_document_id_def md_set_def update_conv')

lemma add_document_Inr:
  assumes "add_document X s i c f = Inr (r, s')"
  shows "(chunks_created r = 0 \<and> resp_id r = i \<and> s' = s)
       \<or> (\<exists>doc es. chunks_created r \<noteq> 0 \<and> resp_id r = i \<and> d_id doc = i
             \<and> ((\<forall>e \<in> set (vector_store s). \<forall>j. e_id e \<noteq> i @ ''_'' @ str_nat j)
                    \<longrightarrow> length es = length (d_chunks doc))
             \<and> (\<forall>e \<in> set es. has_document_id i e \<and> (\<exists>j. e_id e = i @ ''_'' @ str_nat j))
             \<and> s' = s\<lparr>vector_store := vector_store s @ es,
                       documents := AList.update i doc (documents s)\<rparr>)"
proof -
  from assms obtain extracted ty chunks where
    ex: "extract_text X c f = Inr (extracted, ty)" and ch: "chunk_text (eng_processor s) extracted = Some chunks"
    by (auto simp: add_document_def split: sum.splits option.splits prod.splits)
  show ?thesis
  proof (cases "chunks = []")
    case True
    with ex ch have "add_document X s i c f =
        Inr (\<lparr>resp_id = i, resp_filename = f, chunks_created = 0,
              message = ''No content could be extracted from document''\<rparr>, s)"
      by (simp add: add_document_def)
    with assms have "r = \<lparr>resp_id = i, resp_filename = f, chunks_created = 0,
              message = ''No content could be extracted from document''\<rparr>" and "s' = s"
      by simp_all
    then show ?thesis by simp
  next
    case False
    let ?md = "[(''filename'', MStr f), (''doc_type'', MStr (doc_type_value ty))]"
    let ?news = "map (\<lambda>j. \<lparr>e_id = i @ ''_'' @ str_nat j, e_embedding = embed_batch X chunks ! j,
                         e_document = chunks ! j,
                         e_metadata = md_set ''document_id'' (MStr i)
                                        (md_set ''chunk_index'' (MInt (int j)) ?md)\<rparr>)
                   [0..<length chunks]"
    let ?es = "filter (\<lambda>e. e_id e \<notin> set (map e_id (vector_store s))) ?news"
    let ?doc = "\<lparr>d_id = i, d_filename = f, d_doc_type = ty, d_content = extracted, d_chunks = chunks\<rparr>"
    have vs: "vs_add_document (vector_store s) i chunks (embed_batch X chunks) ?md
                = Some (int (length chunks), vector_store s @ ?es)"
      apply (simp add: vs_add_document_def collection_add_def embed_batch_def Let_def)
      apply (rule arg_cong[where f = "filter (\<lambda>e. e_id e \<notin> e_id ` set (vector_store s))"])
      apply simp
      done
    from ex ch False vs have "add_document X s i c f =
        Inr (\<lparr>resp_id = i, resp_filename = f, chunks_created = int (length chunks),
              message = ''Document indexed successfully with '' @ str_nat (length chunks) @ '' chunks''\<rparr>,
             s\<lparr>vector_store := vector_store s @ ?es,
               documents := AList.update i ?doc (documents s)\<rparr>)"
      by (simp add: add_document_def Let_def)
    with assms have r0: "r = \<lparr>resp_id = i, resp_filename = f, chunks_created = int (length chunks),
              message = ''Document indexed successfully with '' @ str_nat (length chunks) @ '' chunks''\<rparr>"
      and s': "s' = s\<lparr>vector_store := vector_store s @ ?es,
                       documents := AList.update i ?doc (documents s)\<rparr>"
      by simp_all
    from r0 have r: "chunks_created r = int (length chunks)" "resp_id r = i" by simp_all
    have news: "\<forall>e \<in> set ?news. has_document_id i e \<and> (\<exists>j. e_id e = i @ ''_'' @ str_nat j)"
      by (auto simp: has_document_id_def md_set_def update_conv')
    then have "\<forall>e \<in> set ?es. has_document_id i e \<and> (\<exists>j. e_id e = i @ ''_'' @ str_nat j)"
      by (meson filter_is_subset subsetD)
    moreover have "length ?es = length (d_chunks ?doc)"
      if unused: "\<forall>e \<in> set (vector_store s). \<forall>j. e_id e \<noteq> i @ ''_'' @ str_nat j"
    proof -
      have "e_id e \<notin> set (map e_id (vector_store s))" if "e \<in> set ?news" for e
      proof
        assume "e_id e \<in> set (map e_id (vector_store s))"
        then obtain e' where e': "e' \<in> set (vector_store s)" "e_id e' = e_id e" by auto
        from news that obtain j where "e_id e = i @ ''_'' @ str_nat j" by blast
        with e' unused show False by metis
      qed
      then have "?es = ?news" by (simp only: filter_id_conv) blast
      then have "length ?es = length ?news" by (rule arg_cong)
      then show ?thesis by simp
    qed
    moreover have "d_id ?doc = i" by simp
    moreover from r False have "chunks_created r \<noteq> 0" by simp
    ultimately show ?thesis using r(2) s' by blast
  qed
qed

lemma consistent_init: "consistent init_engine"
  by (simp add: consistent_def init_engine_def)


lemma delete_document_snd:
  "snd (delete_document s d) =
     (if map_of (documents s) d \<noteq> None
      then s\<lparr>vector_store := filter (\<lambda>e. e_id e \<notin> e_id ` set (filter (has_document_id d) (vector_store s)))
                                 (vector_store s),
             documents := AList.delete d (documents s)\<rparr>
      else s)"
  by (simp add: delete_document_def vs_delete_document_snd)

lemma removed_by_id_iff:
  assumes "consistent s" and "e \<in> set (vector_store s)"
  shows "e_id e \<in> e_id ` set (filter (has_document_id d) (vector_store s)) \<longleftrightarrow> has_document_id d e"
proof
  assume "e_id e \<in> e_id ` set (filter (has_document_id d) (vector_store s))"
  then obtain e' where e': "e' \<in> set (vector_store s)" "has_document_id d e'" "e_id e' = e_id e"
    by auto
  from assms obtain d1 i where d1: "has_document_id d1 e" "e_id e = d1 @ ''_'' @ str_nat i"
    unfolding consistent_def by blast
  from assms(1) e'(1) obtain d2 j where d2: "has_document_id d2 e'" "e_id e' = d2 @ ''_'' @ str_nat j"
    unfolding consistent_def by blast
  from d2(1) e'(2) have "d2 = d" by (rule has_document_id_unique)
  with d1(2) d2(2) e'(3) have "d @ ''_'' @ str_nat j = d1 @ ''_'' @ str_nat i" by simp
  then have "d = d1" by (rule entry_id_inj)
  with d1(1) show "has_document_id d e" by simp
next
  assume "has_document_id d e"
  with assms(2) show "e_id e \<in> e_id ` set (filter (has_document_id d) (vector_store s))" by auto
qed

lemma removed_by_id:
  assumes "consistent s"
  shows "filter (\<lambda>e. e_id e \<notin> e_id ` set (filter (has_document_id d) (vector_store s))) (vector_store s)
         = filter (\<lambda>e. \<not> has_document_id d e) (vector_store s)"
  using removed_by_id_iff[OF assms] by (intro filter_cong) auto

subsection \<open>The invariant is kept by every operation\<close>

lemma consistent_delete:
  assumes "consistent s"
  shows "consistent (snd (delete_document s d))"
proof (cases "map_of (documents s) d \<noteq> None")
  case False
  with assms show ?thesis by (simp add: delete_document_snd)
next
  case True
  let ?s' = "s\<lparr>vector_store := filter (\<lambda>e. \<not> has_document_id d e) (vector_store s),
               documents := AList.delete d (documents s)\<rparr>"
  from True have eq: "snd (delete_document s d) = ?s'"
    by (simp only: delete_document_snd removed_by_id[OF assms]) simp
  have 1: "distinct (map fst (documents ?s'))"
    using assms by (simp add: consistent_def distinct_delete)
  have 2: "\<forall>k doc. map_of (documents ?s') k = Some doc \<longrightarrow> d_id doc = k"
    using assms by (auto simp: consistent_def delete_conv' split: if_splits)
  have 3: "\<exists>d'. has_document_id d' e \<and> map_of (documents ?s') d' \<noteq> None
            \<and> (\<exists>i. e_id e = d' @ ''_'' @ str_nat i)" if "e \<in> set (vector_store ?s')" for e
  proof -
    from that have e: "e \<in> set (vector_store s)" and nd: "\<not> has_document_id d e" by simp_all
    from assms e obtain d' i where d': "has_document_id d' e" "map_of (documents s) d' \<noteq> None"
      "e_id e = d' @ ''_'' @ str_nat i"
      unfolding consistent_def by blast
    from d'(1) nd have "d' \<noteq> d" by auto
    with d'(2) have "map_of (documents ?s') d' \<noteq> None" by (simp add: delete_conv')
    with d'(1,3) show ?thesis by blast
  qed
  from 1 2 3 show ?thesis unfolding eq consistent_def by blast
qed

lemma consistent_add:
  assumes "add_document X s i c f = Inr (r, s')" and "consistent s"
  shows "consistent s'"
proof -
  from add_document_Inr[OF assms(1)] consider "s' = s"
    | doc es where "d_id doc = i"
        "\<forall>e \<in> set es. has_document_id i e \<and> (\<exists>j. e_id e = i @ ''_'' @ str_nat j)"
        "s' = s\<lparr>vector_store := vector_store s @ es,
                 documents := AList.update i doc (documents s)\<rparr>"
    by blast
  then show ?thesis
  proof cases
    case 1
    with assms(2) show ?thesis by simp
  next
    case (2 doc es)
    have a: "distinct (map fst (documents s'))"
      using assms(2) 2(3) by (simp add: consistent_def distinct_update)
    have b: "\<forall>k doc'. map_of (documents s') k = Some doc' \<longrightarrow> d_id doc' = k"
      using assms(2) 2(1,3) by (auto simp: consistent_def update_conv' split: if_splits)
    have c: "\<exists>d'. has_document_id d' e \<and> map_of (documents s') d' \<noteq> None
            \<and> (\<exists>j. e_id e = d' @ ''_'' @ str_nat j)" if "e \<in> set (vector_store s')" for e
    proof -
      from that 2(3) consider "e \<in> set (vector_store s)" | "e \<in> set es" by auto
      then show ?thesis
      proof cases
        case 1
        with assms(2) obtain d' j where d': "has_document_id d' e" "map_of (documents s) d' \<noteq> None"
          "e_id e = d' @ ''_'' @ str_nat j"
          unfolding consistent_def by blast
        from d'(2) 2(3) have "map_of (documents s') d' \<noteq> None" by (simp add: update_conv')
        with d'(1,3) show ?thesis by blast
      next
        case 2
        with \<open>\<forall>e \<in> set es. has_document_id i e \<and> (\<exists>j. e_id e = i @ ''_'' @ str_nat j)\<close>
        have "has_document_id i e" "\<exists>j. e_id e = i @ ''_'' @ str_nat j" by blast+
        moreover from \<open>s' = s\<lparr>vector_store := vector_store s @ es,
                 documents := AList.update i doc (documents s)\<rparr>\<close>
        have "map_of (documents s') i \<noteq> None" by (simp add: update_conv')
        ultimately show ?thesis by blast
      qed
    qed
    from a b c show ?thesis unfolding consistent_def by blast
  qed
qed

lemma consistent_step: "consistent s \<Longrightarrow> consistent (step X s operation)"
proof (cases operation)
  case (AddDocument i c f)
  assume "consistent s"
  then show ?thesis using AddDocument consistent_add
    by (auto split: sum.splits)
next
  case (Query q)
  assume "consistent s"
  with Query show ?thesis by simp
next
  case (DeleteDocument d)
  assume "consistent s"
  with DeleteDocument show ?thesis by (simp add: consistent_delete)
qed

lemma consistent_run: "consistent s \<Longrightarrow> consistent (run X s ops)"
  by (induction ops arbitrary: s) (simp_all add: consistent_step)

subsection \<open>One registered document per id and per entry\<close>

lemma one_document_per_id:
  assumes "consistent s"
  shows "length (filter (\<lambda>doc. d_id doc = d) (map snd (documents s)))
           = (if map_of (documents s) d \<noteq> None then 1 else 0)"
proof -
  from assms have dist: "distinct (map fst (documents s))"
    and own: "\<forall>k doc. map_of (documents s) k = Some doc \<longrightarrow> d_id doc = k"
    by (simp_all add: consistent_def)
  have "d_id (snd kd) = fst kd" if "kd \<in> set (documents s)" for kd
  proof -
    obtain k doc where kd: "kd = (k, doc)" by (cases kd)
    with that dist have "map_of (documents s) k = Some doc" by simp
    with own kd show ?thesis by simp
  qed
  then have keys: "map d_id (map snd (documents s)) = map fst (documents s)" by simp
  have "length (filter (\<lambda>doc. d_id doc = d) (map snd (documents s)))
          = length (filter (\<lambda>k. k = d) (map d_id (map snd (documents s))))"
    by (simp add: filter_map comp_def)
  also have "\<dots> = length (filter (\<lambda>k. k = d) (map fst (documents s)))"
    by (simp only: keys)
  also have "\<dots> = card ({k. k = d} \<inter> set (map fst (documents s)))"
    using dist by (rule distinct_length_filter)
  also have "\<dots> = (if map_of (documents s) d \<noteq> None then 1 else 0)"
  proof (cases "map_of (documents s) d")
    case None
    then have "d \<notin> set (map fst (documents s))" by (simp add: map_of_eq_None_iff)
    then have "{k. k = d} \<inter> set (map fst (documents s)) = {}" by auto
    with None show ?thesis by simp
  next
    case (Some doc)
    then have "d \<in> set (map fst (documents s))" by (metis map_of_eq_None_iff option.distinct(1) set_map)
    then have "{k. k = d} \<inter> set (map fst (documents s)) = {d}" by auto
    with Some show ?thesis by simp
  qed
  finally show ?thesis .
qed

lemma at_most_one_document:
  assumes "consistent s"
  shows "length (filter (\<lambda>doc. d_id doc = d) (map snd (documents s))) \<le> 1"
  using one_document_per_id[OF assms, of d] by (simp del: filter_map split: if_splits)

lemma registered_exactly_once:
  assumes "consistent s" and "map_of (documents s) d \<noteq> None"
  shows "length (filter (\<lambda>doc. d_id doc = d) (map snd (documents s))) = 1"
  using one_document_per_id[OF assms(1), of d] assms(2) by (simp del: filter_map)

text \<open>
  Claim C3. After any sequence of \<open>add_document\<close>, \<open>query\<close> and \<open>delete_document\<close>
  calls on the fresh engine, whatever identifiers the calls draw, no document id belongs to
  more than one registered document, and every entry of the collection carries in its
  metadata the document id of exactly one registered document: no entry is orphaned.
\<close>

theorem registry_and_index_agree:
  "(\<forall>d. length (filter (\<lambda>doc. d_id doc = d) (map snd (documents (run X init_engine ops)))) \<le> 1)
   \<and> (\<forall>e \<in> set (vector_store (run X init_engine ops)).
        \<exists>d. has_document_id d e
          \<and> length (filter (\<lambda>doc. d_id doc = d) (map snd (documents (run X init_engine ops)))) = 1)"
proof -
  let ?s = "run X init_engine ops"
  have c: "consistent ?s" by (rule consistent_run[OF consistent_init])
  have "length (filter (\<lambda>doc. d_id doc = d) (map snd (documents ?s))) \<le> 1" for d
    by (rule at_most_one_document[OF c])
  then have "\<forall>d. length (filter (\<lambda>doc. d_id doc = d) (map snd (documents ?s))) \<le> 1" ..
  moreover have "\<exists>d. has_document_id d e
          \<and> length (filter (\<lambda>doc. d_id doc = d) (map snd (documents ?s))) = 1"
    if "e \<in> set (vector_store ?s)" for e
  proof -
    from c that obtain d where "has_document_id d e" "map_of (documents ?s) d \<noteq> None"
      unfolding consistent_def by blast
    moreover from this(2)
    have "length (filter (\<lambda>doc. d_id doc = d) (map snd (documents ?s))) = 1"
      by (rule registered_exactly_once[OF c])
    ultimately show ?thesis by blast
  qed
  ultimately show ?thesis by blast
qed

theorem registry_and_index_agree_witness:
  "hd (vector_store (run example_externals init_engine example_ops))
     \<in> set (vector_store (run example_externals init_engine example_ops))
   \<and> (\<exists>d. has_document_id d (hd (vector_store (run example_externals init_engine example_ops)))
          \<and> length (filter (\<lambda>doc. d_id doc = d)
                 (map snd (documents (run example_externals init_engine example_ops)))) = 1)"
proof -
  have "vector_store (run example_externals init_engine example_ops) \<noteq> []"
    by code_simp
  then have "hd (vector_store (run example_externals init_engine example_ops))
     \<in> set (vector_store (run example_externals init_engine example_ops))"
    by (rule hd_in_set)
  with registry_and_index_agree[of example_externals example_ops] show ?thesis by blast
qed

subsection \<open>The identifier of an empty ingestion\<close>





subsection \<open>Entries per registered document\<close>




subsection \<open>Deleting a document\<close>




section \<open>The answer synthesizer\<close>

lemma relevant_loop_filter:
  "relevant_loop (set qw) ss acc =
     acc @ filter (\<lambda>s. s \<noteq> [] \<and> set (str_words (str_lower s)) \<inter> set qw \<noteq> {}) (map strip ss)"
proof (induction ss arbitrary: acc)
  case Nil
  show ?case by simp
next
  case (Cons s ss)
  have "1 \<le> card (set qw \<inter> set (str_words (str_lower (strip s))))
          \<longleftrightarrow> set (str_words (str_lower (strip s))) \<inter> set qw \<noteq> {}"
  proof -
    have "finite (set qw \<inter> set (str_words (str_lower (strip s))))" by simp
    then have "0 < card (set qw \<inter> set (str_words (str_lower (strip s))))
                 \<longleftrightarrow> set qw \<inter> set (str_words (str_lower (strip s))) \<noteq> {}"
      by (simp add: card_gt_0_iff)
    then show ?thesis by (simp add: Int_commute Suc_le_eq)
  qed
  with Cons show ?case by (simp add: Let_def)
qed

lemma strip_empty_iff: "strip s = [] \<longleftrightarrow> (\<forall>c \<in> set s. isspace c)"
proof
  assume "strip s = []"
  then have a: "\<forall>c \<in> set (dropWhile isspace s). isspace c"
    by (simp add: strip_def dropWhile_eq_Nil_conv)
  have "dropWhile isspace s = []"
  proof (rule ccontr)
    assume ne: "dropWhile isspace s \<noteq> []"
    then have "\<not> isspace (hd (dropWhile isspace s))" by (rule hd_dropWhile)
    moreover from ne have "hd (dropWhile isspace s) \<in> set (dropWhile isspace s)" by (rule hd_in_set)
    ultimately show False using a by blast
  qed
  then show "\<forall>c \<in> set s. isspace c" by (simp add: dropWhile_eq_Nil_conv)
next
  assume "\<forall>c \<in> set s. isspace c"
  then have d: "dropWhile isspace s = []" by (simp add: dropWhile_eq_Nil_conv)
  show "strip s = []" unfolding strip_def d by simp
qed

lemma split_on_without: "d \<notin> set s \<Longrightarrow> split_on d cur s = [cur @ s]"
  by (induction s arbitrary: cur) auto

lemma split_on_nonempty: "split_on d cur s \<noteq> []"
  by (induction s arbitrary: cur) auto

lemma split_on_with: "d \<in> set s \<Longrightarrow> 2 \<le> length (split_on d cur s)"
proof (induction s arbitrary: cur)
  case Nil
  then show ?case by simp
next
  case (Cons c cs)
  show ?case
  proof (cases "c = d")
    case True
    have "1 \<le> length (split_on d [] cs)"
      using split_on_nonempty[of d "[]" cs] by (cases "split_on d [] cs") simp_all
    with True show ?thesis by simp
  next
    case False
    with Cons show ?thesis by simp
  qed
qed

lemma period_in_join2:
  assumes "2 \<le> length xs"
  shows "CHR ''.'' \<in> set (join ''. '' (take 2 xs))"
proof -
  from assms obtain a b rest where "xs = a # b # rest"
    by (cases xs; cases "tl xs") auto
  then show ?thesis by (simp add: numeral_2_eq_2)
qed

lemma period_not_space: "\<not> isspace CHR ''.''"
  by (simp add: isspace_def)

lemma synthesize_answer_Cons:
  "synthesize_answer q (best # rest) =
     (if qualifying_sentences q (sr_chunk best) \<noteq> []
      then join ''. '' (take 3 (qualifying_sentences q (sr_chunk best))) @ ''.''
      else if strip (join ''. '' (take 2 (str_split CHR ''.'' (sr_chunk best)))) \<noteq> []
              \<and> \<not> ends_with_period (strip (join ''. '' (take 2 (str_split CHR ''.'' (sr_chunk best)))))
           then strip (join ''. '' (take 2 (str_split CHR ''.'' (sr_chunk best)))) @ ''.''
           else strip (join ''. '' (take 2 (str_split CHR ''.'' (sr_chunk best)))))
     @ source_note (sr_filename best)"
  by (simp add: synthesize_answer_def Let_def relevant_loop_filter qualifying_sentences_def)

lemma fallback_nonempty:
  assumes "strip context \<noteq> []"
  shows "strip (join ''. '' (take 2 (str_split CHR ''.'' context))) \<noteq> []"
proof (cases "CHR ''.'' \<in> set context")
  case True
  then have "2 \<le> length (str_split CHR ''.'' context)"
    unfolding str_split_def by (rule split_on_with)
  then have "CHR ''.'' \<in> set (join ''. '' (take 2 (str_split CHR ''.'' context)))"
    by (rule period_in_join2)
  with period_not_space show ?thesis
    unfolding strip_empty_iff by blast
next
  case False
  then have "str_split CHR ''.'' context = [context]"
    by (simp add: str_split_def split_on_without)
  with assms show ?thesis by simp
qed

lemma blank_context:
  assumes "strip context = []"
  shows "qualifying_sentences q context = []"
    and "strip (join ''. '' (take 2 (str_split CHR ''.'' context))) = []"
proof -
  from assms have "\<forall>c \<in> set context. isspace c" by (simp only: strip_empty_iff)
  with period_not_space have "CHR ''.'' \<notin> set context" by blast
  then have one: "str_split CHR ''.'' context = [context]"
    by (simp add: str_split_def split_on_without)
  from one assms show "qualifying_sentences q context = []"
    by (simp add: qualifying_sentences_def)
  from one assms show "strip (join ''. '' (take 2 (str_split CHR ''.'' context))) = []"
    by simp
qed

text \<open>
  Claim C7, as amended. On an empty result list the synthesizer returns the fixed sentence
  that no relevant information was found. On a non-empty list whose top chunk is not blank
  it returns what the specification describes: the first three qualifying sentences joined
  by \<open>". "\<close> with a final period, or else the first two pieces of the chunk joined the
  same way, trimmed and ending with a period, followed by a blank line and the source
  note with the top result's file name. On a blank top chunk the body is empty and the
  answer is the source note alone.
\<close>

theorem synthesize_answer_characterised:
  "synthesize_answer query_string [] = ''No relevant information found in the documents.''
   \<and> (strip (sr_chunk best) \<noteq> [] \<longrightarrow>
        synthesize_answer query_string (best # rest) = synthesize_claimed query_string (best # rest))
   \<and> (strip (sr_chunk best) = [] \<longrightarrow>
        synthesize_answer query_string (best # rest)
          = [CHR 0x0A, CHR 0x0A] @ ''(Source: '' @ sr_filename best @ '')'')"
proof (intro conjI impI)
  show "synthesize_answer query_string [] = ''No relevant information found in the documents.''"
    by (simp add: synthesize_answer_def no_information_def)
next
  assume "strip (sr_chunk best) \<noteq> []"
  then have "strip (join ''. '' (take 2 (str_split CHR ''.'' (sr_chunk best)))) \<noteq> []"
    by (rule fallback_nonempty)
  then show "synthesize_answer query_string (best # rest) = synthesize_claimed query_string (best # rest)"
    by (simp add: synthesize_answer_Cons synthesize_claimed_def with_period_def source_note_def Let_def)
next
  assume blank: "strip (sr_chunk best) = []"
  show "synthesize_answer query_string (best # rest)
          = [CHR 0x0A, CHR 0x0A] @ ''(Source: '' @ sr_filename best @ '')''"
    by (simp add: synthesize_answer_Cons blank_context[OF blank] source_note_def)
qed

theorem synthesize_answer_characterised_witness:
  "strip (sr_chunk hours_result) \<noteq> []
   \<and> synthesize_answer ''What are the working hours?'' [hours_result]
       = synthesize_claimed ''What are the working hours?'' [hours_result]
   \<and> synthesize_claimed ''What are the working hours?'' [hours_result]
       = ''Working hours are 9 AM to 5 PM.'' @ [CHR 0x0A, CHR 0x0A] @ ''(Source: policy.txt)''
   \<and> strip (sr_chunk blank_result) = []
   \<and> synthesize_answer ''What are the working hours?'' [blank_result]
       = [CHR 0x0A, CHR 0x0A] @ ''(Source: '' @ sr_filename blank_result @ '')''"
proof -
  have h1: "strip (sr_chunk hours_result) \<noteq> []" by code_simp
  have h2: "strip (sr_chunk blank_result) = []" by code_simp
  have v: "synthesize_claimed ''What are the working hours?'' [hours_result]
       = ''Working hours are 9 AM to 5 PM.'' @ [CHR 0x0A, CHR 0x0A] @ ''(Source: policy.txt)''"
    by code_simp
  from synthesize_answer_characterised[of "''What are the working hours?''" hours_result "[]"] h1
  have a: "synthesize_answer ''What are the working hours?'' [hours_result]
       = synthesize_claimed ''What are the working hours?'' [hours_result]" by blast
  from synthesize_answer_characterised[of "''What are the working hours?''" blank_result "[]"] h2
  have b: "synthesize_answer ''What are the working hours?'' [blank_result]
       = [CHR 0x0A, CHR 0x0A] @ ''(Source: '' @ sr_filename blank_result @ '')''" by blast
  from h1 a v h2 b show ?thesis by blast
qed

text \<open>
  For a top chunk of one space the body is empty, so it does not end with a period, and
  the answer differs from the one the specification describes.
\<close>

theorem blank_chunk_counterexample:
  "synthesize_answer ''What are the working hours?'' [blank_result]
     = [] @ [CHR 0x0A, CHR 0x0A] @ ''(Source: policy.txt)''
   \<and> \<not> ends_with_period []
   \<and> synthesize_claimed ''What are the working hours?'' [blank_result]
     = ''.'' @ [CHR 0x0A, CHR 0x0A] @ ''(Source: policy.txt)''
   \<and> synthesize_answer ''What are the working hours?'' [blank_result]
     \<noteq> synthesize_claimed ''What are the working hours?'' [blank_result]"
  by code_simp

end
